theory Spec2Isabelle
  imports Complex_Main "HOL-Library.Log_Nat" "HOL-Library.Word"
begin

section \<open>JavaScript numbers\<close>

text \<open>
  Every number of the component is an IEEE 754 binary64 value. A finite double is
  represented by the rational it denotes; the two infinities and NaN are separate
  values. Zero carries no sign here: the sign of a zero is observable in the source
  only through \<open>1 / steps\<close> with \<open>steps = -0\<close>, an input none of the
  statements below is about.
\<close>

datatype number = Dbl rat | PosInfinity | NegInfinity | NaN

text \<open>\<open>ilog2 q\<close> is the binade of a positive rational: \<open>2^e \<le> q < 2^(e+1)\<close>.\<close>

definition ilog2 :: "rat \<Rightarrow> int" where
  "ilog2 q = (if 1 \<le> q then int (floorlog 2 (nat \<lfloor>q\<rfloor>)) - 1
              else - int (floorlog 2 (nat (\<lceil>1 / q\<rceil> - 1))))"

definition round_half_even :: "rat \<Rightarrow> int" where
  "round_half_even x =
     (let f = \<lfloor>x\<rfloor>; d = x - of_int f in
      if d < 1 / 2 then f else if 1 / 2 < d then f + 1
      else if even f then f else f + 1)"

text \<open>
  Rounding to nearest, ties to even, as every arithmetic operation of the language
  does: 53 significant bits, the spacing of the subnormals below \<open>2^-1022\<close>,
  overflow to an infinity once the rounded value reaches \<open>2^1024\<close>.
\<close>

definition to_double :: "rat \<Rightarrow> number" where
  "to_double q =
     (if q = 0 then Dbl 0
      else let e = ilog2 \<bar>q\<bar>; p = max (e - 52) (- 1074);
               m = round_half_even (q / 2 powi p)
           in if 1024 \<le> e \<or> (e = 1023 \<and> 2 ^ 53 \<le> \<bar>m\<bar>)
              then (if 0 < q then PosInfinity else NegInfinity)
              else Dbl (of_int m * 2 powi p))"

definition is_double :: "rat \<Rightarrow> bool" where
  "is_double q \<longleftrightarrow> to_double q = Dbl q"

fun js_neg :: "number \<Rightarrow> number" where
  "js_neg (Dbl a) = Dbl (- a)"
| "js_neg PosInfinity = NegInfinity"
| "js_neg NegInfinity = PosInfinity"
| "js_neg NaN = NaN"

fun js_add :: "number \<Rightarrow> number \<Rightarrow> number" where
  "js_add (Dbl a) (Dbl b) = to_double (a + b)"
| "js_add NaN y = NaN"
| "js_add x NaN = NaN"
| "js_add PosInfinity NegInfinity = NaN"
| "js_add NegInfinity PosInfinity = NaN"
| "js_add PosInfinity y = PosInfinity"
| "js_add x PosInfinity = PosInfinity"
| "js_add NegInfinity y = NegInfinity"
| "js_add x NegInfinity = NegInfinity"

definition js_sub :: "number \<Rightarrow> number \<Rightarrow> number" where
  "js_sub x y = js_add x (js_neg y)"

fun is_negative :: "number \<Rightarrow> bool" where
  "is_negative (Dbl a) = (a < 0)"
| "is_negative NegInfinity = True"
| "is_negative x = False"

fun js_mul :: "number \<Rightarrow> number \<Rightarrow> number" where
  "js_mul (Dbl a) (Dbl b) = to_double (a * b)"
| "js_mul NaN y = NaN"
| "js_mul x NaN = NaN"
| "js_mul x y =
     (if x = Dbl 0 \<or> y = Dbl 0 then NaN
      else if is_negative x = is_negative y then PosInfinity else NegInfinity)"

fun js_div :: "number \<Rightarrow> number \<Rightarrow> number" where
  "js_div (Dbl a) (Dbl b) =
     (if b = 0 then (if a = 0 then NaN else if 0 < a then PosInfinity else NegInfinity)
      else to_double (a / b))"
| "js_div NaN y = NaN"
| "js_div x NaN = NaN"
| "js_div (Dbl a) y = Dbl 0"
| "js_div x (Dbl b) = (if is_negative x = (b < 0) then PosInfinity else NegInfinity)"
| "js_div x y = NaN"

fun js_floor :: "number \<Rightarrow> number" where
  "js_floor (Dbl a) = Dbl (of_int \<lfloor>a\<rfloor>)"
| "js_floor x = x"

text \<open>The value of an integer counter when it enters floating-point arithmetic.\<close>

definition nat_number :: "nat \<Rightarrow> number" where
  "nat_number n = to_double (of_nat n)"

section \<open>JavaScript strings\<close>

text \<open>A string is a sequence of UTF-16 code units; \<open>lit\<close> embeds ASCII source text.\<close>

type_synonym jsstring = "16 word list"

definition code_unit :: "char \<Rightarrow> 16 word" where
  "code_unit c = of_nat (of_char c)"

definition lit :: "string \<Rightarrow> jsstring" where
  "lit s = map code_unit s"

section \<open>The runtime the component runs in\<close>

text \<open>
  What the platform supplies: the conversion of a number to text that a template
  literal applies (\<open>Number::toString\<close>), the successive results of
  \<open>Math.random()\<close> and of \<open>crypto.randomUUID()\<close>, and whether
  \<open>CSSStyleSheet.prototype\<close> has \<open>replaceSync\<close>.
\<close>

record runtime =
  numberToString :: "number \<Rightarrow> jsstring"
  mathRandom :: "nat \<Rightarrow> number"
  randomUUID :: "nat \<Rightarrow> jsstring"
  has_replaceSync :: bool

section \<open>The noise keyframe generator\<close>

text \<open>
  \<open>createRandomNumber(min, max)\<close> is
  \<open>Math.floor(Math.random() * (max - min + 1) + min)\<close>. The argument \<open>k\<close>
  counts the calls of \<open>Math.random()\<close> made so far; the call made here is
  number \<open>k\<close>, and the counter is returned advanced.
\<close>

definition createRandomNumber :: "runtime \<Rightarrow> nat \<Rightarrow> number \<Rightarrow> number \<Rightarrow> number \<times> nat" where
  "createRandomNumber rt k mn mx =
     (js_floor (js_add (js_mul (mathRandom rt k) (js_add (js_sub mx mn) (Dbl 1))) mn), Suc k)"

text \<open>The expression \<open>x * (1 / steps) * 100\<close> of the template, evaluated left to right.\<close>

definition percentage :: "nat \<Rightarrow> nat \<Rightarrow> number" where
  "percentage steps x =
     js_mul (js_mul (nat_number x) (js_div (Dbl 1) (nat_number steps))) (Dbl 100)"

text \<open>One pass of the template literal that the loop appends to \<open>clips\<close>.\<close>

definition keyframe_block :: "runtime \<Rightarrow> number \<Rightarrow> number \<Rightarrow> number \<Rightarrow> jsstring" where
  "keyframe_block rt pct t b =
     lit ''\<newline>        '' @ numberToString rt pct @ lit ''% {\<newline>'' @
     lit ''          clip: rect('' @ numberToString rt t @ lit ''px, 9999px, '' @
       numberToString rt b @ lit ''px, 0);\<newline>'' @
     lit ''        }\<newline>'' @
     lit ''      ''"

text \<open>
  The value of \<open>clip\<close> in that block is the CSS shape
  \<open>rect(top, right, bottom, left)\<close>: four offsets in this order.
\<close>

record clip_rect =
  rect_top :: jsstring
  rect_right :: jsstring
  rect_bottom :: jsstring
  rect_left :: jsstring

definition rect_text :: "clip_rect \<Rightarrow> jsstring" where
  "rect_text r =
     lit ''rect('' @ rect_top r @ lit '', '' @ rect_right r @ lit '', '' @
       rect_bottom r @ lit '', '' @ rect_left r @ lit '')''"

definition keyframe_clip :: "runtime \<Rightarrow> number \<Rightarrow> number \<Rightarrow> clip_rect" where
  "keyframe_clip rt t b =
     \<lparr>rect_top = numberToString rt t @ lit ''px'', rect_right = lit ''9999px'',
      rect_bottom = numberToString rt b @ lit ''px'', rect_left = lit ''0''\<rparr>"

text \<open>
  The loop \<open>for (let x = 0; x <= steps + 1; x++)\<close>. The counter and the bound are
  integers; as doubles they are exact below \<open>2^53\<close>, far beyond the length a string
  can reach, so they are natural numbers here. The state is \<open>clips\<close> and the count
  of random draws.
\<close>

function noise_loop ::
  "runtime \<Rightarrow> nat \<Rightarrow> number \<Rightarrow> number \<Rightarrow> nat \<Rightarrow> jsstring \<times> nat \<Rightarrow> jsstring \<times> nat" where
  "noise_loop rt steps mn mx x (clips, k) =
     (if x \<le> steps + 1 then
        (let pct = percentage steps x;
             (t, k1) = createRandomNumber rt k mn mx;
             (b, k2) = createRandomNumber rt k1 mn mx
         in noise_loop rt steps mn mx (x + 1) (clips @ keyframe_block rt pct t b, k2))
      else (clips, k))"
  by pat_completeness auto
termination
  by (relation "measure (\<lambda>(rt, steps, mn, mx, x, s). steps + 2 - x)") auto

declare noise_loop.simps [simp del]

definition generateNoiseAnimation ::
  "runtime \<Rightarrow> nat \<Rightarrow> number \<Rightarrow> number \<Rightarrow> nat \<Rightarrow> jsstring \<times> nat" where
  "generateNoiseAnimation rt steps mn mx k = noise_loop rt steps mn mx 0 ([], k)"

text \<open>The keyframe entry of loop index \<open>x\<close>, in a call that starts after \<open>k\<close> draws.\<close>

definition keyframe_at :: "runtime \<Rightarrow> nat \<Rightarrow> number \<Rightarrow> number \<Rightarrow> nat \<Rightarrow> nat \<Rightarrow> jsstring" where
  "keyframe_at rt steps mn mx k x =
     keyframe_block rt (percentage steps x)
       (fst (createRandomNumber rt (k + 2 * x) mn mx))
       (fst (createRandomNumber rt (k + 2 * x + 1) mn mx))"

section \<open>The host element and the page\<close>

text \<open>
  The private fields \<open>#uuid\<close> and \<open>#glitchText\<close>, the attributes of the host
  element (\<open>dataset.text\<close> is the attribute \<open>data-text\<close>; an absent attribute
  reads as \<open>undefined\<close>) and its rendered text \<open>innerText\<close>.
\<close>

record glitch_text =
  priv_uuid :: jsstring
  priv_glitchText :: jsstring
  attributes :: "string \<Rightarrow> jsstring option"
  innerText :: jsstring

text \<open>A constructed style sheet is represented by the text \<open>replaceSync\<close> loaded into it.\<close>

datatype stylesheet = CSSStyleSheet (sheet_text: jsstring)

definition replaceSync :: "stylesheet \<Rightarrow> jsstring \<Rightarrow> stylesheet" where
  "replaceSync sheet text = CSSStyleSheet text"

text \<open>
  The state outside the element: how many times \<open>Math.random()\<close> and
  \<open>crypto.randomUUID()\<close> have been called, and \<open>document.adoptedStyleSheets\<close>.
\<close>

record page =
  random_calls :: nat
  uuid_calls :: nat
  adoptedStyleSheets :: "stylesheet list"

definition uuid :: "glitch_text \<Rightarrow> jsstring" where
  "uuid el = priv_uuid el"

definition set_uuid :: "jsstring \<Rightarrow> glitch_text \<Rightarrow> glitch_text" where
  "set_uuid v el =
     (let el1 = el\<lparr>priv_uuid := v\<rparr>
      in el1\<lparr>attributes := (attributes el1)(''uuid'' \<mapsto> priv_uuid el1)\<rparr>)"

definition glitchText :: "glitch_text \<Rightarrow> jsstring" where
  "glitchText el = priv_glitchText el"

definition set_glitchText :: "jsstring \<Rightarrow> glitch_text \<Rightarrow> glitch_text" where
  "set_glitchText v el =
     (let el1 = el\<lparr>priv_glitchText := v\<rparr>
      in if attributes el1 ''data-text'' \<noteq> Some v
         then el1\<lparr>attributes := (attributes el1)(''data-text'' \<mapsto> priv_glitchText el1)\<rparr>
         else el1)"

text \<open>
  \<open>String.prototype.trim\<close> removes the white space and line terminators of the
  language from both ends.
\<close>

definition is_js_whitespace :: "16 word \<Rightarrow> bool" where
  "is_js_whitespace c \<longleftrightarrow>
     c \<in> {0x0009, 0x000A, 0x000B, 0x000C, 0x000D, 0x0020, 0x00A0, 0x1680,
          0x2028, 0x2029, 0x202F, 0x205F, 0x3000, 0xFEFF}
     \<or> (0x2000 \<le> c \<and> c \<le> 0x200A)"

definition trim :: "jsstring \<Rightarrow> jsstring" where
  "trim s = rev (dropWhile is_js_whitespace (rev (dropWhile is_js_whitespace s)))"

section \<open>The style sheet of an instance\<close>

text \<open>
  A rule set of the template: the selector, an opening brace, one line per declaration,
  the closing brace, at the indentation the template has.
\<close>

definition declaration_line :: "string \<times> jsstring \<Rightarrow> jsstring" where
  "declaration_line d = lit ''          '' @ lit (fst d) @ lit '': '' @ snd d @ lit '';\<newline>''"

definition rule_set :: "jsstring \<Rightarrow> (string \<times> jsstring) list \<Rightarrow> jsstring" where
  "rule_set sel ds =
     lit ''        '' @ sel @ lit '' {\<newline>'' @
     concat (map declaration_line ds) @
     lit ''        }\<newline>''"

definition host_selector :: "jsstring \<Rightarrow> jsstring" where
  \<open>host_selector u = lit ''glitch-text[uuid="'' @ u @ lit ''"]''\<close>

definition host_declarations :: "(string \<times> jsstring) list" where
  "host_declarations =
     [(''display'', lit ''inline-block''),
      (''position'', lit ''relative''),
      (''text-wrap'', lit ''balance'')]"

definition pseudo_declarations :: "(string \<times> jsstring) list" where
  "pseudo_declarations =
     [(''animation'',
         lit ''var(--glitch-anim-name) var(--glitch-anim-delay)\<newline>'' @
         lit ''            var(--glitch-anim-timing, linear) var(--glitch-anim-count, infinite)\<newline>'' @
         lit ''            var(--glitch-anim-dir, alternate-reverse)''),
      (''background-color'', lit ''var(--glitch-backdrop, inherit)''),
      (''clip'', lit ''var(--glitch-clip)''),
      (''color'', lit ''var(--glitch-text, inherit)''),
      (''content'', lit ''attr(data-text)''),
      (''inset-block-start'', lit ''0''),
      (''inset-inline-start'', lit ''var(--glitch-position)''),
      (''overflow'', lit ''hidden''),
      (''position'', lit ''absolute''),
      (''text-shadow'', lit ''var(--glitch-shadow)'')]"

definition after_declarations :: "jsstring \<Rightarrow> (string \<times> jsstring) list" where
  "after_declarations u =
     [(''--glitch-anim-delay'', lit ''2s''),
      (''--glitch-anim-name'', lit ''noise-anim-after-'' @ u),
      (''--glitch-clip'', lit ''rect(0, 900px, 0, 0)''),
      (''--glitch-position'', lit ''0px''),
      (''--glitch-shadow'', lit ''-1px 0 var(--glitch-shadow-color)''),
      (''--glitch-shadow-color'', lit ''red'')]"

definition before_declarations :: "jsstring \<Rightarrow> (string \<times> jsstring) list" where
  "before_declarations u =
     [(''--glitch-anim-delay'', lit ''3s''),
      (''--glitch-anim-name'', lit ''noise-anim-before-'' @ u),
      (''--glitch-clip'', lit ''rect(0, 900px, 0, 0)''),
      (''--glitch-position'', lit ''-2px''),
      (''--glitch-shadow'', lit ''1px 0 var(--glitch-shadow-color)''),
      (''--glitch-shadow-color'', lit ''blue'')]"

definition keyframes_rule :: "jsstring \<Rightarrow> jsstring \<Rightarrow> jsstring" where
  "keyframes_rule name frames =
     lit ''        @keyframes '' @ name @ lit '' {\<newline>'' @
     lit ''          '' @ frames @ lit ''\<newline>'' @
     lit ''        }\<newline>''"

text \<open>
  The text between the opening brace of the media rule and its closing brace. The two
  calls \<open>generateNoiseAnimation()\<close> take the defaults \<open>steps = 20\<close>,
  \<open>min = 1\<close>, \<open>max = 100\<close> and run in the order of the template: the frames of
  the \<open>after\<close> animation first.
\<close>

definition media_body :: "runtime \<Rightarrow> glitch_text \<Rightarrow> nat \<Rightarrow> jsstring \<times> nat" where
  "media_body rt el k =
     (let (after_frames, k1) = generateNoiseAnimation rt 20 (Dbl 1) (Dbl 100) k;
          (before_frames, k2) = generateNoiseAnimation rt 20 (Dbl 1) (Dbl 100) k1
      in (lit ''\<newline>'' @
          rule_set (host_selector (uuid el)) host_declarations @
          lit ''\<newline>'' @
          rule_set (host_selector (uuid el) @ lit ''::after,\<newline>'' @
                    lit ''        '' @ host_selector (uuid el) @ lit ''::before'')
            pseudo_declarations @
          lit ''\<newline>'' @
          rule_set (host_selector (uuid el) @ lit ''::after'') (after_declarations (uuid el)) @
          lit ''\<newline>'' @
          rule_set (host_selector (uuid el) @ lit ''::before'') (before_declarations (uuid el)) @
          lit ''\<newline>'' @
          keyframes_rule (lit ''noise-anim-after-'' @ uuid el) after_frames @
          lit ''\<newline>'' @
          keyframes_rule (lit ''noise-anim-before-'' @ uuid el) before_frames @
          lit ''      '', k2))"

definition styles :: "runtime \<Rightarrow> glitch_text \<Rightarrow> nat \<Rightarrow> jsstring \<times> nat" where
  "styles rt el k =
     (let (body, k') = media_body rt el k
      in (lit ''\<newline>'' @
          lit ''      @media (prefers-reduced-motion: no-preference) {'' @
          body @
          lit ''}\<newline>'' @
          lit ''    '', k'))"

section \<open>Publishing and attachment\<close>

definition adoptStyles :: "runtime \<Rightarrow> glitch_text \<Rightarrow> page \<Rightarrow> page" where
  "adoptStyles rt el pg =
     (if \<not> has_replaceSync rt then pg
      else let sheet = CSSStyleSheet [];
               (text, k) = styles rt el (random_calls pg);
               sheet = replaceSync sheet text
           in pg\<lparr>random_calls := k,
                 adoptedStyleSheets := adoptedStyleSheets pg @ [sheet]\<rparr>)"

definition connectedCallback :: "runtime \<Rightarrow> glitch_text \<times> page \<Rightarrow> glitch_text \<times> page" where
  "connectedCallback rt s =
     (let (el, pg) = s;
          el1 = set_uuid (randomUUID rt (uuid_calls pg)) el;
          pg1 = pg\<lparr>uuid_calls := Suc (uuid_calls pg)\<rparr>;
          el2 = set_glitchText
                  (case attributes el1 ''data-text'' of
                     Some v \<Rightarrow> if v \<noteq> [] then v else trim (innerText el1)
                   | None \<Rightarrow> trim (innerText el1)) el1
      in (el2, adoptStyles rt el2 pg1))"

section \<open>Braces and blocks\<close>

definition brace_free :: "jsstring \<Rightarrow> bool" where
  "brace_free s \<longleftrightarrow> code_unit CHR ''{'' \<notin> set s \<and> code_unit CHR ''}'' \<notin> set s"

text \<open>
  Scanning a text, \<open>brace_depth\<close> counts the blocks that are open; it fails on a
  closing brace that has no block to close. A text is balanced when it closes exactly
  the blocks it opens.
\<close>

fun brace_depth :: "nat \<Rightarrow> jsstring \<Rightarrow> nat option" where
  "brace_depth d [] = Some d"
| "brace_depth d (c # cs) =
     (if c = code_unit CHR ''{'' then brace_depth (Suc d) cs
      else if c = code_unit CHR ''}'' then (case d of 0 \<Rightarrow> None | Suc d' \<Rightarrow> brace_depth d' cs)
      else brace_depth d cs)"

definition balanced :: "jsstring \<Rightarrow> bool" where
  "balanced s \<longleftrightarrow> brace_depth 0 s = Some 0"

section \<open>A runtime for the closed examples\<close>

text \<open>
  The examples below run the component in one fixed runtime. Its number conversion
  prints the integer part of a finite value in decimal, which is what
  \<open>Number::toString\<close> prints for the integers of the examples; the digits the
  platform chooses for other values are not modelled.
\<close>

function decimal :: "nat \<Rightarrow> string" where
  "decimal n =
     (if n < 10 then [''0123456789'' ! n]
      else decimal (n div 10) @ [''0123456789'' ! (n mod 10)])"
  by pat_completeness auto
termination
  by (relation "measure id") auto

declare decimal.simps [simp del]

definition sample_number_text :: "number \<Rightarrow> jsstring" where
  "sample_number_text x =
     (case x of
        Dbl q \<Rightarrow> (if q < 0 then lit ''-'' else []) @ lit (decimal (nat \<lfloor>\<bar>q\<bar>\<rfloor>))
      | PosInfinity \<Rightarrow> lit ''Infinity''
      | NegInfinity \<Rightarrow> lit ''-Infinity''
      | NaN \<Rightarrow> lit ''NaN'')"

definition sample_runtime :: runtime where
  "sample_runtime =
     \<lparr>numberToString = sample_number_text,
      mathRandom = (\<lambda>k. Dbl (if even k then 1 / 4 else 3 / 4)),
      randomUUID = (\<lambda>k. if k = 0 then lit ''3b241101-e2bb-4255-8caf-4136c566a962''
                         else lit ''f47ac10b-58cc-4372-a567-0e02b2c3d479''),
      has_replaceSync = True\<rparr>"

text \<open>
  A host element as the parser creates it, before attachment: both private fields
  empty, the attribute \<open>data-text\<close> as given, the rendered text as given.
\<close>

definition sample_element :: "jsstring option \<Rightarrow> jsstring \<Rightarrow> glitch_text" where
  "sample_element a t =
     \<lparr>priv_uuid = [], priv_glitchText = [],
      attributes = (\<lambda>name. if name = ''data-text'' then a else None), innerText = t\<rparr>"

definition empty_page :: page where
  "empty_page = \<lparr>random_calls = 0, uuid_calls = 0, adoptedStyleSheets = []\<rparr>"

section \<open>Strings and braces\<close>

lemma code_unit_eq_iff [simp]: "code_unit c = code_unit d \<longleftrightarrow> c = d"
proof
  assume "code_unit c = code_unit d"
  then have "unat (code_unit c) = unat (code_unit d)" by simp
  moreover have "unat (code_unit x) = of_char x" for x
  proof -
    have "(of_char x :: nat) < 65536"
      using nat_of_char_less_256 [of x] by linarith
    then show ?thesis by (simp add: code_unit_def unat_of_nat)
  qed
  ultimately show "c = d" by simp
qed simp

lemma lit_Nil: "lit [] = []"
  by (simp add: lit_def)

lemma lit_Cons: "lit (c # s) = code_unit c # lit s"
  by (simp add: lit_def)

lemma lit_append: "lit (a @ b) = lit a @ lit b"
  by (simp add: lit_def)

lemmas lit_simps = lit_Nil lit_Cons

lemma lit_eq_Nil_iff [simp]: "lit s = [] \<longleftrightarrow> s = []"
  by (simp add: lit_def)

lemma lit_eq_iff [simp]: "lit a = lit b \<longleftrightarrow> a = b"
  by (simp add: lit_def inj_map_eq_map inj_on_def)

lemma brace_free_Nil [simp]: "brace_free []"
  by (simp add: brace_free_def)

lemma brace_free_Cons [simp]:
  "brace_free (c # s) \<longleftrightarrow>
   c \<noteq> code_unit CHR ''{'' \<and> c \<noteq> code_unit CHR ''}'' \<and> brace_free s"
  by (auto simp: brace_free_def)

lemma brace_free_append [simp]: "brace_free (a @ b) \<longleftrightarrow> brace_free a \<and> brace_free b"
  by (auto simp: brace_free_def)

lemma count_brace_free:
  "brace_free s \<Longrightarrow>
   count_list s (code_unit CHR ''{'') = 0 \<and> count_list s (code_unit CHR ''}'') = 0"
  by (simp add: brace_free_def)

lemma count_list_concat_sum:
  "count_list (concat xs) c = sum_list (map (\<lambda>x. count_list x c) xs)"
  by (induction xs) simp_all

lemma brace_free_digits:
  "set s \<subseteq> set ''0123456789'' \<Longrightarrow> brace_free (lit s)"
  by (induction s) (auto simp: lit_simps)

lemma decimal_digits: "set (decimal n) \<subseteq> set ''0123456789''"
proof (induction n rule: decimal.induct)
  case (1 n)
  have d: "''0123456789'' ! m \<in> set ''0123456789''" if "m < 10" for m
    using that by (intro nth_mem) simp
  show ?case
  proof (cases "n < 10")
    case True
    then show ?thesis using d [of n] by (subst decimal.simps) simp
  next
    case False
    then show ?thesis
      using 1 d [of "n mod 10"] by (subst decimal.simps) simp
  qed
qed

lemma sample_number_text_brace_free: "brace_free (sample_number_text x)"
  by (cases x)
    (simp_all add: sample_number_text_def brace_free_digits [OF decimal_digits] lit_simps)

lemma sample_runtime_numbers: "\<forall>n. brace_free (numberToString sample_runtime n)"
  by (simp add: sample_runtime_def sample_number_text_brace_free)

lemma brace_depth_append:
  "brace_depth d (a @ b) = (case brace_depth d a of None \<Rightarrow> None | Some d' \<Rightarrow> brace_depth d' b)"
  by (induction a arbitrary: d) (auto split: nat.split)




section \<open>Rounding\<close>

lemma ilog2_bounds:
  assumes "0 < q"
  shows "2 powi (ilog2 q) \<le> q \<and> q < 2 powi (ilog2 q + 1)"
proof (cases "1 \<le> q")
  case True
  define n where "n = nat \<lfloor>q\<rfloor>"
  define k where "k = floorlog 2 n"
  have n: "0 < n" using True by (simp add: n_def)
  have fl: "2 ^ (k - 1) \<le> n" "n < 2 ^ k"
    using floorlog_bounds [of n 2] n by (simp_all add: k_def)
  have k: "0 < k" using fl(2) n by (cases k) auto
  have e: "ilog2 q = int (k - 1)"
    using True k by (simp add: ilog2_def n_def k_def of_nat_diff)
  have nq: "of_nat n \<le> q" "q < of_nat n + 1"
    using True by (simp_all add: n_def) linarith
  have lo: "(2::rat) ^ (k - 1) \<le> of_nat n"
    using fl(1) by (metis of_nat_le_iff of_nat_numeral of_nat_power)
  have hi: "(of_nat n + 1 :: rat) \<le> 2 ^ k"
  proof -
    have "n + 1 \<le> 2 ^ k" using fl(2) by simp
    then have "(of_nat (n + 1) :: rat) \<le> of_nat (2 ^ k)" by (rule of_nat_mono)
    then show ?thesis by simp
  qed
  have p1: "(2::rat) powi ilog2 q = 2 ^ (k - 1)"
    unfolding e by (rule power_int_of_nat)
  have "ilog2 q + 1 = int k" using e k by simp
  then have p2: "(2::rat) powi (ilog2 q + 1) = 2 ^ k"
    by (simp only: power_int_of_nat)
  show ?thesis
    unfolding p1 p2 using lo hi nq by linarith
next
  case False
  define t where "t = 1 / q"
  define n where "n = nat (\<lceil>t\<rceil> - 1)"
  define k where "k = floorlog 2 n"
  have t: "1 < t" using False assms by (simp add: t_def)
  then have c: "2 \<le> \<lceil>t\<rceil>" by linarith
  have n: "0 < n" using c by (simp add: n_def)
  have fl: "2 ^ (k - 1) \<le> n" "n < 2 ^ k"
    using floorlog_bounds [of n 2] n by (simp_all add: k_def)
  have k: "0 < k" using fl(2) n by (cases k) auto
  have e: "ilog2 q = - int k"
    using False by (simp add: ilog2_def n_def k_def t_def)
  have nt: "of_nat n < t" "t \<le> of_nat n + 1"
    using c by (simp_all add: n_def) linarith+
  have lo: "(2::rat) ^ (k - 1) \<le> of_nat n"
    using fl(1) by (metis of_nat_le_iff of_nat_numeral of_nat_power)
  have hi: "(of_nat n + 1 :: rat) \<le> 2 ^ k"
  proof -
    have "n + 1 \<le> 2 ^ k" using fl(2) by simp
    then have "(of_nat (n + 1) :: rat) \<le> of_nat (2 ^ k)" by (rule of_nat_mono)
    then show ?thesis by simp
  qed
  have q: "q = 1 / t" using assms by (simp add: t_def)
  have t_hi: "t \<le> 2 ^ k" using nt(2) hi by linarith
  have t_lo: "2 ^ (k - 1) < t" using nt(1) lo by linarith
  have "1 / 2 ^ k \<le> q"
    unfolding q using t t_hi by (intro divide_left_mono) auto
  moreover have "q < 1 / 2 ^ (k - 1)"
    unfolding q using t t_lo by (intro divide_strict_left_mono) auto
  moreover have "(2::rat) powi ilog2 q = 1 / 2 ^ k"
    unfolding e by (simp add: power_int_minus field_simps)
  moreover have "(2::rat) powi (ilog2 q + 1) = 1 / 2 ^ (k - 1)"
  proof -
    have "ilog2 q + 1 = - int (k - 1)" using e k by simp
    then show ?thesis by (simp only: power_int_minus power_int_of_nat inverse_eq_divide)
  qed
  ultimately show ?thesis by simp
qed

lemma ilog2_unique:
  assumes "0 < q" "2 powi e \<le> q" "q < 2 powi (e + 1)"
  shows "ilog2 q = e"
proof -
  note b = ilog2_bounds [OF assms(1)]
  have "(2::rat) powi e < 2 powi (ilog2 q + 1)" using assms(2) b by linarith
  then have "e < ilog2 q + 1"
    by (metis power_int_increasing not_less one_le_numeral)
  moreover have "(2::rat) powi (ilog2 q) < 2 powi (e + 1)" using assms(3) b by linarith
  then have "ilog2 q < e + 1"
    by (metis power_int_increasing not_less one_le_numeral)
  ultimately show ?thesis by simp
qed

lemma round_half_even_of_int [simp]: "round_half_even (of_int n) = n"
  by (simp add: round_half_even_def)

lemma round_half_even_le: "x \<le> of_int n \<Longrightarrow> round_half_even x \<le> n"
proof -
  assume a: "x \<le> of_int n"
  show ?thesis
  proof (cases "x = of_int n")
    case True then show ?thesis by simp
  next
    case False
    then have "x < of_int n" using a by simp
    then have "\<lfloor>x\<rfloor> < n" by (simp add: floor_less_iff)
    then show ?thesis by (simp add: round_half_even_def Let_def)
  qed
qed

lemma round_half_even_ge: "of_int n \<le> x \<Longrightarrow> n \<le> round_half_even x"
proof -
  assume "of_int n \<le> x"
  then have "n \<le> \<lfloor>x\<rfloor>" by (simp add: le_floor_iff)
  then show ?thesis by (simp add: round_half_even_def Let_def)
qed

lemma round_half_even_below_half:
  assumes "x < of_int n + 1 / 2"
  shows "round_half_even x \<le> n"
proof -
  have f: "\<lfloor>x\<rfloor> \<le> n"
  proof -
    have "x < of_int (n + 1)" using assms by simp
    then have "\<lfloor>x\<rfloor> < n + 1" by (simp only: floor_less_iff)
    then show ?thesis by simp
  qed
  show ?thesis
  proof (cases "\<lfloor>x\<rfloor> = n")
    case True
    then have "x - of_int \<lfloor>x\<rfloor> < 1 / 2" using assms by simp
    then show ?thesis using True by (simp add: round_half_even_def Let_def)
  next
    case False
    then have "\<lfloor>x\<rfloor> + 1 \<le> n" using f by simp
    then show ?thesis by (simp add: round_half_even_def Let_def)
  qed
qed

lemma ilog2_less:
  assumes "0 < q" "q < 2 powi e"
  shows "ilog2 q < e"
proof -
  have "(2::rat) powi ilog2 q < 2 powi e"
    using ilog2_bounds [OF assms(1)] assms(2) by linarith
  then show ?thesis
    by (metis power_int_increasing not_less one_le_numeral)
qed

lemma to_double_pos:
  assumes "0 < q" "q < 2 powi 1023"
  shows "to_double q =
    Dbl (of_int (round_half_even (q / 2 powi (max (ilog2 q - 52) (- 1074))))
          * 2 powi (max (ilog2 q - 52) (- 1074)))"
proof -
  have "ilog2 q < 1023" using assms by (rule ilog2_less)
  then show ?thesis
    using assms(1) by (simp add: to_double_def Let_def)
qed

lemma power_int_split:
  assumes "p \<le> g"
  shows "(2::rat) powi g = 2 ^ nat (g - p) * 2 powi p"
proof -
  have "(2::rat) powi g = 2 powi (int (nat (g - p)) + p)" using assms by simp
  also have "\<dots> = 2 powi int (nat (g - p)) * 2 powi p"
    by (rule power_int_add) simp
  finally show ?thesis by (simp only: power_int_of_nat)
qed

lemma to_double_grid:
  assumes q: "0 < q" and small: "q < 2 powi (g + 53)" and g: "- 1074 \<le> g" "g + 53 \<le> 1023"
    and lo: "of_int L * 2 powi g \<le> q" and hi: "q \<le> of_int H * 2 powi g"
  shows "\<exists>a. to_double q = Dbl a \<and> of_int L * 2 powi g \<le> a \<and> a \<le> of_int H * 2 powi g"
proof -
  define p where "p = max (ilog2 q - 52) (- 1074)"
  define j where "j = nat (g - p)"
  have "ilog2 q < g + 53" using q small by (rule ilog2_less)
  then have pg: "p \<le> g" using g(1) by (simp add: p_def)
  have pos: "(0::rat) < 2 powi p" by (simp add: zero_less_power_int)
  have split: "(2::rat) powi g = 2 ^ j * 2 powi p"
    unfolding j_def using pg by (rule power_int_split)
  have "(2::rat) powi (g + 53) \<le> 2 powi 1023"
    using g(2) by (intro power_int_increasing) simp_all
  then have "q < 2 powi 1023" using small by linarith
  then have td: "to_double q = Dbl (of_int (round_half_even (q / 2 powi p)) * 2 powi p)"
    unfolding p_def using q to_double_pos by blast
  have "q / 2 powi p \<le> of_int (H * 2 ^ j)"
    using hi pos by (simp add: split field_simps)
  then have "round_half_even (q / 2 powi p) \<le> H * 2 ^ j" by (rule round_half_even_le)
  then have "(of_int (round_half_even (q / 2 powi p)) :: rat) \<le> of_int (H * 2 ^ j)"
    by (simp only: of_int_le_iff)
  then have up: "of_int (round_half_even (q / 2 powi p)) * 2 powi p \<le> (of_int H * 2 powi g :: rat)"
    using pos by (simp add: split field_simps)
  have "of_int (L * 2 ^ j) \<le> q / 2 powi p"
    using lo pos by (simp add: split field_simps)
  then have "L * 2 ^ j \<le> round_half_even (q / 2 powi p)" by (rule round_half_even_ge)
  then have "(of_int (L * 2 ^ j) :: rat) \<le> of_int (round_half_even (q / 2 powi p))"
    by (simp only: of_int_le_iff)
  then have low: "(of_int L * 2 powi g :: rat) \<le> of_int (round_half_even (q / 2 powi p)) * 2 powi p"
    using pos by (simp add: split field_simps)
  show ?thesis using td up low by blast
qed

lemma to_double_grid_half:
  assumes lo: "2 powi (g + 52) \<le> q" and small: "q < 2 powi (g + 53)"
    and g: "- 1074 \<le> g" "g + 53 \<le> 1023"
    and half: "q < (of_int H + 1 / 2) * 2 powi g"
  shows "\<exists>a. to_double q = Dbl a \<and> a \<le> of_int H * 2 powi g"
proof -
  have q: "0 < q"
    using lo zero_less_power_int [of "2::rat" "g + 52"] by linarith
  have "ilog2 q = g + 52"
    using q lo small by (intro ilog2_unique) (simp_all add: add.commute add.left_commute)
  then have p: "max (ilog2 q - 52) (- 1074) = g" using g(1) by simp
  have pos: "(0::rat) < 2 powi g" by (simp add: zero_less_power_int)
  have "(2::rat) powi (g + 53) \<le> 2 powi 1023"
    using g(2) by (intro power_int_increasing) simp_all
  then have "q < 2 powi 1023" using small by linarith
  then have td: "to_double q = Dbl (of_int (round_half_even (q / 2 powi g)) * 2 powi g)"
    using to_double_pos [OF q] by (simp only: p)
  have "q / 2 powi g < of_int H + 1 / 2"
    using half pos by (simp add: field_simps)
  then have "round_half_even (q / 2 powi g) \<le> H" by (rule round_half_even_below_half)
  then have "(of_int (round_half_even (q / 2 powi g)) :: rat) \<le> of_int H"
    by (simp only: of_int_le_iff)
  then have "of_int (round_half_even (q / 2 powi g)) * 2 powi g \<le> (of_int H * 2 powi g :: rat)"
    using pos by (simp add: field_simps)
  then show ?thesis using td by blast
qed

lemma double_below_one:
  assumes "is_double r" "r < 1"
  shows "r \<le> 1 - 1 / 2 ^ 53"
proof (cases "r < 1 / 2")
  case True
  then show ?thesis by simp
next
  case False
  then have q: "0 < r" by simp
  have "ilog2 r = - 1"
    using q False assms(2) by (intro ilog2_unique) simp_all
  then have p: "max (ilog2 r - 52) (- 1074) = - 53" by simp
  define m where "m = round_half_even (r / 2 powi (- 53))"
  have "r < 2 powi 1023" using assms(2) by simp
  then have "to_double r = Dbl (of_int m * 2 powi (- 53))"
    using to_double_pos [OF q] by (simp only: p m_def)
  then have r: "r = of_int m / 2 ^ 53"
    using assms(1) by (simp add: is_double_def)
  then have "(of_int m :: rat) < of_int (2 ^ 53)" using assms(2) by simp
  then have "m < 2 ^ 53" by (simp only: of_int_less_iff)
  then have "m \<le> 2 ^ 53 - 1" by simp
  then have "(of_int m :: rat) \<le> of_int (2 ^ 53 - 1)" by (simp only: of_int_le_iff)
  then show ?thesis by (simp add: r field_simps)
qed

lemma round_half_even_near:
  assumes "of_int n - 1 / 2 < x" "x < of_int n + 1 / 2"
  shows "round_half_even x = n"
proof -
  have up: "round_half_even x \<le> n" using assms(2) by (rule round_half_even_below_half)
  have "of_int (n - 1) \<le> x" using assms(1) by simp
  then have f: "n - 1 \<le> \<lfloor>x\<rfloor>" by (simp only: le_floor_iff)
  have "n \<le> round_half_even x"
  proof (cases "\<lfloor>x\<rfloor> = n - 1")
    case True
    then have "1 / 2 < x - of_int \<lfloor>x\<rfloor>" using assms(1) by simp
    then show ?thesis using True by (simp add: round_half_even_def Let_def)
  next
    case False
    then have "n \<le> \<lfloor>x\<rfloor>" using f by simp
    then show ?thesis by (simp add: round_half_even_def Let_def)
  qed
  then show ?thesis using up by simp
qed

lemma to_double_binade:
  assumes "2 powi e \<le> q" "q < 2 powi (e + 1)" "- 1022 \<le> e" "e < 1023"
    and "of_int m - 1 / 2 < q / 2 powi (e - 52)" "q / 2 powi (e - 52) < of_int m + 1 / 2"
  shows "to_double q = Dbl (of_int m * 2 powi (e - 52))"
proof -
  have q: "0 < q"
    using assms(1) zero_less_power_int [of "2::rat" e] by linarith
  have e: "ilog2 q = e" using q assms(1,2) by (rule ilog2_unique)
  have p: "max (ilog2 q - 52) (- 1074) = e - 52" using assms(3) by (simp add: e)
  have "(2::rat) powi (e + 1) \<le> 2 powi 1023"
    using assms(4) by (intro power_int_increasing) simp_all
  then have "q < 2 powi 1023" using assms(2) by linarith
  then have "to_double q = Dbl (of_int (round_half_even (q / 2 powi (e - 52))) * 2 powi (e - 52))"
    using to_double_pos [OF q] by (simp only: p)
  then show ?thesis
    using round_half_even_near [OF assms(5,6)] by simp
qed

section \<open>Properties of the generator\<close>

lemma noise_loop_unfold:
  "x \<le> steps + 1 \<Longrightarrow>
   noise_loop rt steps mn mx x (clips, k0 + 2 * x) =
   noise_loop rt steps mn mx (Suc x) (clips @ keyframe_at rt steps mn mx k0 x, k0 + 2 * Suc x)"
  by (subst noise_loop.simps) (simp add: keyframe_at_def createRandomNumber_def Let_def)

lemma noise_loop_blocks:
  "x \<le> steps + 2 \<Longrightarrow>
   noise_loop rt steps mn mx x (clips, k0 + 2 * x) =
   (clips @ concat (map (keyframe_at rt steps mn mx k0) [x..<steps + 2]), k0 + 2 * (steps + 2))"
proof (induction "steps + 2 - x" arbitrary: x clips)
  case 0
  then have "x = steps + 2" by simp
  then show ?case by (subst noise_loop.simps) simp
next
  case (Suc n)
  then have le: "x \<le> steps + 1" and n: "n = steps + 2 - Suc x" by simp_all
  have "[x..<steps + 2] = x # [Suc x..<steps + 2]"
    using le by (simp add: upt_conv_Cons)
  moreover have "noise_loop rt steps mn mx (Suc x) (clips @ keyframe_at rt steps mn mx k0 x, k0 + 2 * Suc x) =
      ((clips @ keyframe_at rt steps mn mx k0 x) @
         concat (map (keyframe_at rt steps mn mx k0) [Suc x..<steps + 2]), k0 + 2 * (steps + 2))"
    using Suc.hyps(1) [OF n] le by simp
  ultimately show ?case
    using noise_loop_unfold [OF le] by simp
qed

lemma generateNoiseAnimation_blocks:
  "generateNoiseAnimation rt steps mn mx k =
   (concat (map (keyframe_at rt steps mn mx k) [0..<steps + 2]), k + 2 * (steps + 2))"
  using noise_loop_blocks [of 0 steps rt mn mx "[]" k]
  by (simp add: generateNoiseAnimation_def)


lemma keyframe_block_braces:
  assumes "\<forall>n. brace_free (numberToString rt n)"
  shows "count_list (keyframe_block rt p t b) (code_unit CHR ''{'') = 1"
    and "count_list (keyframe_block rt p t b) (code_unit CHR ''}'') = 1"
  using assms by (simp_all add: keyframe_block_def count_brace_free lit_simps)

lemma sum_list_const_one: "(\<Sum>x\<leftarrow>xs. Suc 0) = length xs"
  by (induction xs) simp_all

text \<open>
  C1. For every \<open>steps > 0\<close> and any \<open>min\<close>, \<open>max\<close>,
  \<open>generateNoiseAnimation(steps, min, max)\<close> returns the concatenation of
  \<open>steps + 2\<close> keyframe entries, one for each loop index \<open>0, ..., steps + 1\<close>.
  Each entry opens one block, so the returned string holds exactly \<open>steps + 2\<close>
  opening braces (the text of a number has none).
\<close>

theorem generateNoiseAnimation_entries:
  assumes "0 < steps" and "\<forall>n. brace_free (numberToString rt n)"
  shows "fst (generateNoiseAnimation rt steps mn mx k) =
           concat (map (keyframe_at rt steps mn mx k) [0..<steps + 2])
         \<and> length (map (keyframe_at rt steps mn mx k) [0..<steps + 2]) = steps + 2
         \<and> count_list (fst (generateNoiseAnimation rt steps mn mx k)) (code_unit CHR ''{'')
             = steps + 2"
proof -
  have "count_list (keyframe_at rt steps mn mx k x) (code_unit CHR ''{'') = Suc 0" for x
    using keyframe_block_braces(1) [OF assms(2)] by (simp add: keyframe_at_def)
  then have "count_list (concat (map (keyframe_at rt steps mn mx k) [0..<steps + 2]))
      (code_unit CHR ''{'') = steps + 2"
    by (simp add: count_list_concat_sum comp_def sum_list_const_one)
  then show ?thesis
    by (simp add: generateNoiseAnimation_blocks)
qed

theorem generateNoiseAnimation_entries_witness:
  "(0::nat) < 1 \<and> (\<forall>n. brace_free (numberToString sample_runtime n)) \<and>
   count_list (fst (generateNoiseAnimation sample_runtime 1 (Dbl 1) (Dbl 100) 0))
     (code_unit CHR ''{'') = 3"
proof -
  have pos: "(0::nat) < 1" by simp
  have "count_list (fst (generateNoiseAnimation sample_runtime 1 (Dbl 1) (Dbl 100) 0))
      (code_unit CHR ''{'') = 1 + 2"
    using generateNoiseAnimation_entries [OF pos sample_runtime_numbers] by blast
  then show ?thesis
    using sample_runtime_numbers by simp
qed

text \<open>The block of the template, read as the rectangle it declares.\<close>

lemma keyframe_block_clip:
  "keyframe_block rt pct t b =
     lit ''\<newline>        '' @ numberToString rt pct @ lit ''% {\<newline>'' @
     lit ''          clip: '' @ rect_text (keyframe_clip rt t b) @ lit '';\<newline>'' @
     lit ''        }\<newline>'' @
     lit ''      ''"
  by (simp add: keyframe_block_def rect_text_def keyframe_clip_def lit_simps)

lemma sample_first_draws:
  "fst (createRandomNumber sample_runtime 0 (Dbl 1) (Dbl 100)) = Dbl 26"
  "fst (createRandomNumber sample_runtime (Suc 0) (Dbl 1) (Dbl 100)) = Dbl 76"
  by code_simp+

text \<open>
  C4, as the code has it. Every keyframe entry that \<open>generateNoiseAnimation\<close> emits
  declares a clip rectangle whose top and bottom offsets are the results of two
  successive calls of \<open>createRandomNumber(min, max)\<close>, the top one drawn first,
  whose right offset is the constant \<open>9999px\<close> and whose left offset is \<open>0\<close>.
\<close>

theorem generateNoiseAnimation_clip:
  "fst (generateNoiseAnimation rt steps mn mx k) =
     concat (map (keyframe_at rt steps mn mx k) [0..<steps + 2])
   \<and> (\<forall>x < steps + 2.
        keyframe_at rt steps mn mx k x =
          lit ''\<newline>        '' @ numberToString rt (percentage steps x) @ lit ''% {\<newline>'' @
          lit ''          clip: '' @
            rect_text (keyframe_clip rt (fst (createRandomNumber rt (k + 2 * x) mn mx))
                         (fst (createRandomNumber rt (k + 2 * x + 1) mn mx))) @
            lit '';\<newline>'' @
          lit ''        }\<newline>'' @
          lit ''      '')
   \<and> rect_top (keyframe_clip rt t b) = numberToString rt t @ lit ''px''
   \<and> rect_right (keyframe_clip rt t b) = lit ''9999px''
   \<and> rect_bottom (keyframe_clip rt t b) = numberToString rt b @ lit ''px''
   \<and> rect_left (keyframe_clip rt t b) = lit ''0''"
  by (simp add: generateNoiseAnimation_blocks keyframe_at_def keyframe_block_clip
      keyframe_clip_def)

theorem generateNoiseAnimation_clip_witness:
  "(0::nat) < 1 + 2
   \<and> keyframe_at sample_runtime 1 (Dbl 1) (Dbl 100) 0 0 =
       lit ''\<newline>        '' @ numberToString sample_runtime (percentage 1 0) @ lit ''% {\<newline>'' @
       lit ''          clip: '' @ rect_text (keyframe_clip sample_runtime (Dbl 26) (Dbl 76)) @
         lit '';\<newline>'' @
       lit ''        }\<newline>'' @
       lit ''      ''
   \<and> rect_right (keyframe_clip sample_runtime (Dbl 26) (Dbl 76)) = lit ''9999px''
   \<and> rect_left (keyframe_clip sample_runtime (Dbl 26) (Dbl 76)) = lit ''0''"
proof -
  note th = generateNoiseAnimation_clip
    [of sample_runtime 1 "Dbl 1" "Dbl 100" 0 "Dbl 26" "Dbl 76"]
  have "(0::nat) < 1 + 2" by simp
  with th [THEN conjunct2, THEN conjunct1]
  have "keyframe_at sample_runtime 1 (Dbl 1) (Dbl 100) 0 0 =
       lit ''\<newline>        '' @ numberToString sample_runtime (percentage 1 0) @ lit ''% {\<newline>'' @
       lit ''          clip: '' @
         rect_text (keyframe_clip sample_runtime
           (fst (createRandomNumber sample_runtime (0 + 2 * 0) (Dbl 1) (Dbl 100)))
           (fst (createRandomNumber sample_runtime (0 + 2 * 0 + 1) (Dbl 1) (Dbl 100)))) @
         lit '';\<newline>'' @
       lit ''        }\<newline>'' @
       lit ''      ''"
    by blast
  then show ?thesis
    using th [THEN conjunct2, THEN conjunct2] by (simp add: sample_first_draws)
qed

text \<open>
  The entry written first in the sample runtime reads
  \<open>clip: rect(26px, 9999px, 76px, 0)\<close>: its left offset is not the large constant
  and its right offset is not 0.
\<close>

theorem clip_left_is_zero:
  "keyframe_at sample_runtime 1 (Dbl 1) (Dbl 100) 0 0 =
     lit ''\<newline>        0% {\<newline>          clip: rect(26px, 9999px, 76px, 0);\<newline>        }\<newline>      ''
   \<and> rect_text (keyframe_clip sample_runtime (Dbl 26) (Dbl 76)) = lit ''rect(26px, 9999px, 76px, 0)''
   \<and> rect_left (keyframe_clip sample_runtime (Dbl 26) (Dbl 76)) \<noteq> lit ''9999px''
   \<and> rect_right (keyframe_clip sample_runtime (Dbl 26) (Dbl 76)) \<noteq> lit ''0''"
  by code_simp

text \<open>
  C8, as the code has it. For every \<open>steps > 0\<close> the keyframe blocks are
  concatenated in ascending order of the loop index \<open>x = 0, ..., steps + 1\<close>, and
  the percentage written in the entry of index \<open>x\<close> is the double
  \<open>x * (1 / steps) * 100\<close>, each of the three operations rounded.
\<close>

theorem generateNoiseAnimation_percentages:
  assumes "0 < steps"
  shows "fst (generateNoiseAnimation rt steps mn mx k) =
           concat (map (keyframe_at rt steps mn mx k) [0..<steps + 2])
       \<and> (\<forall>x < steps + 2. \<exists>t b.
             keyframe_at rt steps mn mx k x =
               keyframe_block rt
                 (js_mul (js_mul (nat_number x) (js_div (Dbl 1) (nat_number steps))) (Dbl 100))
                 t b)"
  by (auto simp: generateNoiseAnimation_blocks keyframe_at_def percentage_def)

lemma percentage_20_3: "percentage 20 3 = Dbl (15 + 1 / 2 ^ 49)"
  by code_simp

theorem generateNoiseAnimation_percentages_witness:
  "(0::nat) < 20 \<and> (3::nat) < 20 + 2
   \<and> (\<exists>t b. keyframe_at sample_runtime 20 (Dbl 1) (Dbl 100) 0 3 =
         keyframe_block sample_runtime (Dbl (15 + 1 / 2 ^ 49)) t b)"
proof -
  have pos: "(0::nat) < 20" and x: "(3::nat) < 20 + 2" by simp_all
  have "\<exists>t b. keyframe_at sample_runtime 20 (Dbl 1) (Dbl 100) 0 3 =
      keyframe_block sample_runtime
        (js_mul (js_mul (nat_number 3) (js_div (Dbl 1) (nat_number 20))) (Dbl 100)) t b"
    using generateNoiseAnimation_percentages [OF pos, of sample_runtime "Dbl 1" "Dbl 100" 0] x
    by blast
  then show ?thesis
    using percentage_20_3 by (simp add: percentage_def)
qed

text \<open>
  With the default \<open>steps = 20\<close> the entry of index 3 carries
  \<open>3 * (1 / 20) * 100 = 15.000000000000002\<close>, one unit in the last place above
  15; \<open>3 * (100 / 20)\<close> is 15, in double arithmetic as in exact arithmetic.
\<close>

theorem percentage_is_not_x_times_100_over_steps:
  "percentage 20 3 = Dbl (15 + 1 / 2 ^ 49)
   \<and> js_mul (nat_number 3) (js_div (Dbl 100) (nat_number 20)) = Dbl 15
   \<and> percentage 20 3 \<noteq> js_mul (nat_number 3) (js_div (Dbl 100) (nat_number 20))
   \<and> percentage 20 3 \<noteq> Dbl (3 * (100 / 20))"
  by code_simp

text \<open>
  The range of \<open>createRandomNumber\<close> for the arguments the component passes,
  \<open>min = 1\<close> and \<open>max = 100\<close>: whatever double in \<open>[0, 1)\<close> the random
  source returns, the result is an integer between 1 and 100.
\<close>

lemma default_product:
  assumes "is_double r" "0 \<le> r" "r < 1"
  shows "\<exists>a. to_double (r * 100) = Dbl a \<and> 0 \<le> a \<and> a \<le> 100 - 1 / 2 ^ 46"
proof (cases "r = 0")
  case True
  then show ?thesis by (simp add: to_double_def)
next
  case False
  define q where "q = r * 100"
  have r: "r \<le> 1 - 1 / 2 ^ 53" using assms(1,3) by (rule double_below_one)
  have q: "0 < q" "q \<le> 100 - 100 / 2 ^ 53"
    using False assms(2) r by (simp_all add: q_def)
  have g: "- 1074 \<le> (- 46 :: int)" "(- 46 :: int) + 53 \<le> 1023" by simp_all
  have small: "q < 2 powi (- 46 + 53)" using q(2) by simp
  obtain a where a: "to_double q = Dbl a" "of_int 0 * 2 powi (- 46) \<le> a"
    using to_double_grid [OF q(1) small g, of 0 "128 * 2 ^ 46"] q by auto
  have "a \<le> 100 - 1 / 2 ^ 46"
  proof (cases "q < 64")
    case True
    obtain a' where "to_double q = Dbl a'" "a' \<le> of_int (64 * 2 ^ 46) * 2 powi (- 46)"
      using to_double_grid [OF q(1) small g, of 0 "64 * 2 ^ 46"] q(1) True by auto
    then show ?thesis using a(1) by simp
  next
    case False
    then have lo: "2 powi (- 46 + 52) \<le> q" by simp
    have half: "q < (of_int (100 * 2 ^ 46 - 1) + 1 / 2) * 2 powi (- 46)"
      using q(2) by simp
    obtain a' where "to_double q = Dbl a'" "a' \<le> of_int (100 * 2 ^ 46 - 1) * 2 powi (- 46)"
      using to_double_grid_half [OF lo small g half] by auto
    then show ?thesis using a(1) by simp
  qed
  then show ?thesis using a by (auto simp: q_def)
qed

lemma default_sum:
  assumes "0 \<le> a" "a \<le> 100 - 1 / 2 ^ 46"
  shows "\<exists>b. to_double (a + 1) = Dbl b \<and> 1 \<le> b \<and> b \<le> 101 - 1 / 2 ^ 46"
proof -
  define s where "s = a + 1"
  have s: "0 < s" "1 \<le> s" "s \<le> 101 - 1 / 2 ^ 46" using assms by (simp_all add: s_def)
  have g: "- 1074 \<le> (- 46 :: int)" "(- 46 :: int) + 53 \<le> 1023" by simp_all
  have small: "s < 2 powi (- 46 + 53)" using s(3) by simp
  have lo: "of_int (2 ^ 46) * 2 powi (- 46) \<le> s" using s(2) by simp
  have hi: "s \<le> of_int (101 * 2 ^ 46 - 1) * 2 powi (- 46)" using s(3) by simp
  obtain b where "to_double s = Dbl b" "of_int (2 ^ 46) * 2 powi (- 46) \<le> b"
      "b \<le> of_int (101 * 2 ^ 46 - 1) * 2 powi (- 46)"
    using to_double_grid [OF s(1) small g lo hi] by auto
  then show ?thesis by (auto simp: s_def)
qed

lemma default_bounds: "js_add (js_sub (Dbl 100) (Dbl 1)) (Dbl 1) = Dbl 100"
  by code_simp

lemma default_range_core:
  assumes "is_double r" "0 \<le> r" "r < 1"
  shows "\<exists>n::int. js_floor (js_add (js_mul (Dbl r) (js_add (js_sub (Dbl 100) (Dbl 1)) (Dbl 1)))
           (Dbl 1)) = Dbl (of_int n) \<and> 1 \<le> n \<and> n \<le> 100"
proof -
  obtain a where a: "to_double (r * 100) = Dbl a" "0 \<le> a" "a \<le> 100 - 1 / 2 ^ 46"
    using default_product [OF assms] by blast
  obtain b where b: "to_double (a + 1) = Dbl b" "1 \<le> b" "b \<le> 101 - 1 / 2 ^ 46"
    using default_sum [OF a(2,3)] by blast
  have "b < 101" using b(3) by simp
  then have "\<lfloor>b\<rfloor> \<le> 100" by (simp add: floor_less_iff)
  moreover have "1 \<le> \<lfloor>b\<rfloor>" using b(2) by (simp add: le_floor_iff)
  ultimately show ?thesis
    by (simp add: default_bounds a(1) b(1))
qed

lemma createRandomNumber_default_range:
  assumes "mathRandom rt k = Dbl r" "is_double r" "0 \<le> r" "r < 1"
  shows "\<exists>n::int. fst (createRandomNumber rt k (Dbl 1) (Dbl 100)) = Dbl (of_int n)
           \<and> 1 \<le> n \<and> n \<le> 100"
  using default_range_core [OF assms(2-4)]
  by (simp add: createRandomNumber_def assms(1))

lemma double_2_40: "is_double (2 ^ 40)"
  unfolding is_double_def
  using to_double_binade [of 40 "2 ^ 40" "2 ^ 52"] by simp

lemma sum_2_40: "to_double (1 - 1 / 2 ^ 14 + 2 ^ 40) = Dbl (2 ^ 40 + 1)"
  using to_double_binade [of 40 "1 - 1 / 2 ^ 14 + 2 ^ 40" "2 ^ 52 + 2 ^ 12"] by simp

lemma small_steps:
  "js_add (js_sub (Dbl (2 ^ 40)) (Dbl (2 ^ 40))) (Dbl 1) = Dbl 1"
  "js_mul (Dbl (1 - 1 / 2 ^ 14)) (Dbl 1) = Dbl (1 - 1 / 2 ^ 14)"
proof -
  have one: "to_double 1 = Dbl 1" by code_simp
  have zero: "js_sub (Dbl (2 ^ 40)) (Dbl (2 ^ 40)) = Dbl 0"
    by (simp add: js_sub_def to_double_def)
  show "js_add (js_sub (Dbl (2 ^ 40)) (Dbl (2 ^ 40))) (Dbl 1) = Dbl 1"
    by (simp only: zero js_add.simps) (simp add: one)
  have "to_double (1 - 1 / 2 ^ 14) = Dbl (1 - 1 / 2 ^ 14)" by code_simp
  then show "js_mul (Dbl (1 - 1 / 2 ^ 14)) (Dbl 1) = Dbl (1 - 1 / 2 ^ 14)" by simp
qed

lemma above_max_2_40:
  "js_floor (js_add (js_mul (Dbl (1 - 1 / 2 ^ 14))
      (js_add (js_sub (Dbl (2 ^ 40)) (Dbl (2 ^ 40))) (Dbl 1))) (Dbl (2 ^ 40))) = Dbl (2 ^ 40 + 1)"
proof -
  have "\<lfloor>(2 ^ 40 + 1 :: rat)\<rfloor> = 2 ^ 40 + 1"
    by (metis floor_of_int of_int_1 of_int_add of_int_numeral of_int_power)
  then show ?thesis
    by (simp only: small_steps js_add.simps sum_2_40 js_floor.simps) simp
qed

text \<open>
  C7 outside that range. The double \<open>1 - 2^-52 = 0.9999999999999998\<close> is a value
  \<open>Math.random()\<close> may return. With it and \<open>min = max = 2\<close>, \<open>r * (2 - 2 + 1) + 2 = 3 - 2^-52\<close>
  lies halfway between two doubles and rounds to the even one, 3: the result is above
  \<open>max\<close>. With \<open>min = max = 2^40\<close> the doubles are \<open>2^-12\<close> apart, and
  \<open>r = 1 - 2^-14 = 0.99993896484375\<close> gives \<open>r * 1 + 2^40\<close>, which rounds
  to \<open>2^40 + 1\<close>.
\<close>

theorem createRandomNumber_above_max:
  "is_double (1 - 1 / 2 ^ 52) \<and> (0::rat) \<le> 1 - 1 / 2 ^ 52 \<and> (1 - 1 / 2 ^ 52 :: rat) < 1
   \<and> fst (createRandomNumber (sample_runtime\<lparr>mathRandom := \<lambda>k. Dbl (1 - 1 / 2 ^ 52)\<rparr>)
         0 (Dbl 2) (Dbl 2)) = Dbl 3
   \<and> is_double (1 - 1 / 2 ^ 14) \<and> is_double (2 ^ 40)
   \<and> fst (createRandomNumber (sample_runtime\<lparr>mathRandom := \<lambda>k. Dbl (1 - 1 / 2 ^ 14)\<rparr>)
         0 (Dbl (2 ^ 40)) (Dbl (2 ^ 40))) = Dbl (2 ^ 40 + 1)"
proof -
  have small: "is_double (1 - 1 / 2 ^ 52) \<and> (0::rat) \<le> 1 - 1 / 2 ^ 52
      \<and> (1 - 1 / 2 ^ 52 :: rat) < 1
      \<and> fst (createRandomNumber (sample_runtime\<lparr>mathRandom := \<lambda>k. Dbl (1 - 1 / 2 ^ 52)\<rparr>)
            0 (Dbl 2) (Dbl 2)) = Dbl 3"
    by code_simp
  have r: "is_double (1 - 1 / 2 ^ 14)"
    by code_simp
  have m: "mathRandom (sample_runtime\<lparr>mathRandom := \<lambda>k. Dbl (1 - 1 / 2 ^ 14)\<rparr>) 0
      = Dbl (1 - 1 / 2 ^ 14)"
    by simp
  have large: "fst (createRandomNumber (sample_runtime\<lparr>mathRandom := \<lambda>k. Dbl (1 - 1 / 2 ^ 14)\<rparr>)
      0 (Dbl (2 ^ 40)) (Dbl (2 ^ 40))) = Dbl (2 ^ 40 + 1)"
    by (simp only: createRandomNumber_def fst_conv m above_max_2_40)
  show ?thesis
    using small r double_2_40 large by blast
qed

section \<open>Properties of the style sheet\<close>








lemma after_rule_text:
  \<open>rule_set (host_selector u @ lit ''::after'') (after_declarations u) =
     lit ''        glitch-text[uuid="'' @ u @ lit ''"]::after {\<newline>'' @
     lit ''          --glitch-anim-delay: 2s;\<newline>'' @
     lit ''          --glitch-anim-name: noise-anim-after-'' @ u @ lit '';\<newline>'' @
     lit ''          --glitch-clip: rect(0, 900px, 0, 0);\<newline>'' @
     lit ''          --glitch-position: 0px;\<newline>'' @
     lit ''          --glitch-shadow: -1px 0 var(--glitch-shadow-color);\<newline>'' @
     lit ''          --glitch-shadow-color: red;\<newline>'' @
     lit ''        }\<newline>''\<close>
  by (simp add: rule_set_def declaration_line_def after_declarations_def host_selector_def
      lit_simps)

lemma before_rule_text:
  \<open>rule_set (host_selector u @ lit ''::before'') (before_declarations u) =
     lit ''        glitch-text[uuid="'' @ u @ lit ''"]::before {\<newline>'' @
     lit ''          --glitch-anim-delay: 3s;\<newline>'' @
     lit ''          --glitch-anim-name: noise-anim-before-'' @ u @ lit '';\<newline>'' @
     lit ''          --glitch-clip: rect(0, 900px, 0, 0);\<newline>'' @
     lit ''          --glitch-position: -2px;\<newline>'' @
     lit ''          --glitch-shadow: 1px 0 var(--glitch-shadow-color);\<newline>'' @
     lit ''          --glitch-shadow-color: blue;\<newline>'' @
     lit ''        }\<newline>''\<close>
  by (simp add: rule_set_def declaration_line_def before_declarations_def host_selector_def
      lit_simps)




section \<open>Properties of attachment\<close>

lemma adoptStyles_uuid_calls [simp]: "uuid_calls (adoptStyles rt el pg) = uuid_calls pg"
  by (simp add: adoptStyles_def Let_def split: prod.split)

lemma connectedCallback_element:
  "fst (connectedCallback rt (el, pg)) =
   set_glitchText
     (case attributes el ''data-text'' of
        Some v \<Rightarrow> if v \<noteq> [] then v else trim (innerText el)
      | None \<Rightarrow> trim (innerText el))
     (set_uuid (randomUUID rt (uuid_calls pg)) el)"
  by (simp add: connectedCallback_def Let_def set_uuid_def split: option.split)

lemma connectedCallback_page:
  "snd (connectedCallback rt (el, pg)) =
   adoptStyles rt (fst (connectedCallback rt (el, pg))) (pg\<lparr>uuid_calls := Suc (uuid_calls pg)\<rparr>)"
  by (simp add: connectedCallback_def Let_def)

lemma set_glitchText_fields [simp]:
  "glitchText (set_glitchText v el) = v"
  "uuid (set_glitchText v el) = uuid el"
  "attributes (set_glitchText v el) ''data-text'' = Some v"
  "attributes (set_glitchText v el) ''uuid'' = attributes el ''uuid''"
  "innerText (set_glitchText v el) = innerText el"
  by (simp_all add: set_glitchText_def glitchText_def uuid_def Let_def)

lemma set_uuid_fields [simp]:
  "uuid (set_uuid u el) = u"
  "attributes (set_uuid u el) ''uuid'' = Some u"
  "attributes (set_uuid u el) ''data-text'' = attributes el ''data-text''"
  "innerText (set_uuid u el) = innerText el"
  "glitchText (set_uuid u el) = glitchText el"
  by (simp_all add: set_uuid_def glitchText_def uuid_def Let_def)

lemma trim_World: "trim (lit ''World'') = lit ''World''"
  by (simp add: trim_def is_js_whitespace_def code_unit_def lit_simps)

lemma trim_ex: "trim (lit '' \<newline> World  '') = lit ''World''"
  by (simp add: trim_def is_js_whitespace_def code_unit_def lit_simps)

text \<open>
  C6. On attachment, a host element whose text attribute is \<open>Hello\<close> gets the
  display text \<open>Hello\<close> and keeps the attribute \<open>Hello\<close>; a host element
  with no text attribute and the rendered text \<open>World\<close> gets the display text
  \<open>World\<close>.
\<close>

theorem connectedCallback_text:
  "(attributes el ''data-text'' = Some (lit ''Hello'') \<longrightarrow>
      glitchText (fst (connectedCallback rt (el, pg))) = lit ''Hello'' \<and>
      attributes (fst (connectedCallback rt (el, pg))) ''data-text'' = Some (lit ''Hello''))
   \<and> (attributes el ''data-text'' = None \<and> innerText el = lit ''World'' \<longrightarrow>
      glitchText (fst (connectedCallback rt (el, pg))) = lit ''World'')"
  by (simp add: connectedCallback_element trim_World)


theorem connectedCallback_text_witness:
  "attributes (sample_element (Some (lit ''Hello'')) (lit ''ignored'')) ''data-text'' = Some (lit ''Hello'')
   \<and> glitchText (fst (connectedCallback sample_runtime
         (sample_element (Some (lit ''Hello'')) (lit ''ignored''), empty_page))) = lit ''Hello''
   \<and> attributes (sample_element None (lit ''World'')) ''data-text'' = None
   \<and> innerText (sample_element None (lit ''World'')) = lit ''World''
   \<and> glitchText (fst (connectedCallback sample_runtime
         (sample_element None (lit ''World''), empty_page))) = lit ''World''"
  using connectedCallback_text [of "sample_element (Some (lit ''Hello'')) (lit ''ignored'')"
      sample_runtime empty_page]
    connectedCallback_text [of "sample_element None (lit ''World'')" sample_runtime empty_page]
  by (simp add: sample_element_def)

lemma dropWhile_split:
  "\<exists>pre. s = pre @ dropWhile P s \<and> (\<forall>c \<in> set pre. P c)"
  by (rule exI [of _ "takeWhile P s"]) (auto dest: set_takeWhileD)

lemma trim_spec:
  "\<exists>pre post. s = pre @ trim s @ post
      \<and> (\<forall>c \<in> set pre. is_js_whitespace c) \<and> (\<forall>c \<in> set post. is_js_whitespace c)
      \<and> (trim s \<noteq> [] \<longrightarrow> \<not> is_js_whitespace (hd (trim s)) \<and> \<not> is_js_whitespace (last (trim s)))"
proof -
  let ?P = is_js_whitespace
  let ?a = "dropWhile ?P s"
  obtain pre where pre: "s = pre @ ?a" "\<forall>c \<in> set pre. ?P c"
    using dropWhile_split [of s ?P] by blast
  obtain q where q: "rev ?a = q @ dropWhile ?P (rev ?a)" "\<forall>c \<in> set q. ?P c"
    using dropWhile_split [of "rev ?a" ?P] by blast
  have t: "trim s = rev (dropWhile ?P (rev ?a))"
    by (simp add: trim_def)
  have a: "?a = trim s @ rev q"
  proof -
    have "?a = rev (rev ?a)" by simp
    also have "\<dots> = rev (q @ dropWhile ?P (rev ?a))" using q(1) by simp
    finally show ?thesis by (simp add: t)
  qed
  have ends: "\<not> ?P (hd (trim s)) \<and> \<not> ?P (last (trim s))" if ne: "trim s \<noteq> []"
  proof
    have "dropWhile ?P (rev ?a) \<noteq> []" using ne t by simp
    then have "\<not> ?P (hd (dropWhile ?P (rev ?a)))" by (rule hd_dropWhile)
    then show "\<not> ?P (last (trim s))"
      using ne t by (simp add: last_rev)
    have "?a \<noteq> []" using a ne by auto
    then have "\<not> ?P (hd ?a)" by (rule hd_dropWhile)
    moreover have "hd ?a = hd (trim s)" using a ne by (metis hd_append2)
    ultimately show "\<not> ?P (hd (trim s))" by simp
  qed
  have "s = pre @ trim s @ rev q" using pre(1) a by simp
  moreover have "\<forall>c \<in> set (rev q). ?P c" using q(2) by simp
  ultimately show ?thesis using pre(2) ends by blast
qed

text \<open>
  C10. On attachment, a text attribute that is present but empty is treated as an
  absent one: the display text is the rendered text with the white space of both ends
  removed, and that trimmed text is what the attribute \<open>data-text\<close> holds
  afterwards.
\<close>

theorem connectedCallback_fallback:
  assumes "attributes el ''data-text'' = Some [] \<or> attributes el ''data-text'' = None"
  shows "glitchText (fst (connectedCallback rt (el, pg))) = trim (innerText el)
       \<and> attributes (fst (connectedCallback rt (el, pg))) ''data-text'' = Some (trim (innerText el))
       \<and> fst (connectedCallback rt (el, pg)) =
           fst (connectedCallback rt (el\<lparr>attributes := (attributes el)(''data-text'' := None)\<rparr>, pg))
       \<and> (\<exists>pre post. innerText el = pre @ trim (innerText el) @ post
             \<and> (\<forall>c \<in> set pre. is_js_whitespace c) \<and> (\<forall>c \<in> set post. is_js_whitespace c)
             \<and> (trim (innerText el) \<noteq> [] \<longrightarrow>
                  \<not> is_js_whitespace (hd (trim (innerText el)))
                  \<and> \<not> is_js_whitespace (last (trim (innerText el)))))"
proof -
  have v: "(case attributes el ''data-text'' of
              Some v \<Rightarrow> if v \<noteq> [] then v else trim (innerText el)
            | None \<Rightarrow> trim (innerText el)) = trim (innerText el)"
    using assms by auto
  have same: "fst (connectedCallback rt (el, pg)) =
      fst (connectedCallback rt (el\<lparr>attributes := (attributes el)(''data-text'' := None)\<rparr>, pg))"
    using assms
    by (auto simp: connectedCallback_element set_glitchText_def set_uuid_def Let_def fun_upd_twist
          intro!: glitch_text.equality ext)
  show ?thesis
    using same trim_spec [of "innerText el"]
    by (simp add: connectedCallback_element v)
qed


theorem connectedCallback_fallback_witness:
  "(attributes (sample_element (Some []) (lit '' \<newline> World  '')) ''data-text'' = Some []
      \<or> attributes (sample_element (Some []) (lit '' \<newline> World  '')) ''data-text'' = None)
   \<and> glitchText (fst (connectedCallback sample_runtime
         (sample_element (Some []) (lit '' \<newline> World  ''), empty_page))) = lit ''World''
   \<and> attributes (fst (connectedCallback sample_runtime
         (sample_element (Some []) (lit '' \<newline> World  ''), empty_page))) ''data-text''
       = Some (lit ''World'')
   \<and> lit ''World'' \<noteq> []
   \<and> \<not> is_js_whitespace (hd (lit ''World'')) \<and> \<not> is_js_whitespace (last (lit ''World''))"
proof -
  let ?el = "sample_element (Some []) (lit '' \<newline> World  '')"
  have a: "attributes ?el ''data-text'' = Some [] \<or> attributes ?el ''data-text'' = None"
    by (simp add: sample_element_def)
  have t: "trim (innerText ?el) = lit ''World''"
    by (simp add: sample_element_def trim_ex)
  note th = connectedCallback_fallback [OF a, of sample_runtime empty_page]
  have g: "glitchText (fst (connectedCallback sample_runtime (?el, empty_page))) = lit ''World''"
    using th [THEN conjunct1] by (simp only: t)
  have d: "attributes (fst (connectedCallback sample_runtime (?el, empty_page))) ''data-text''
      = Some (lit ''World'')"
    using th [THEN conjunct2, THEN conjunct1] by (simp only: t)
  have ne: "lit ''World'' \<noteq> []" by simp
  have "\<not> is_js_whitespace (hd (lit ''World'')) \<and> \<not> is_js_whitespace (last (lit ''World''))"
    using th [THEN conjunct2, THEN conjunct2, THEN conjunct2] ne by (auto simp only: t)
  then show ?thesis
    using a g d ne by simp
qed

text \<open>
  C3. With \<open>replaceSync\<close> present, \<open>adoptStyles\<close> appends exactly one
  entry to the adopted style sheets, a new sheet holding the generated style text.
  Without it \<open>adoptStyles\<close> returns with the page as it was: nothing is appended,
  and the path has no operation that could throw.
\<close>

theorem adoptStyles_gated:
  "(has_replaceSync rt \<longrightarrow>
      adoptedStyleSheets (adoptStyles rt el pg) =
        adoptedStyleSheets pg @ [CSSStyleSheet (fst (styles rt el (random_calls pg)))]
      \<and> length (adoptedStyleSheets (adoptStyles rt el pg)) = length (adoptedStyleSheets pg) + 1)
   \<and> (\<not> has_replaceSync rt \<longrightarrow> adoptStyles rt el pg = pg)"
  by (simp add: adoptStyles_def replaceSync_def Let_def split: prod.split)

theorem adoptStyles_gated_witness:
  "has_replaceSync sample_runtime
   \<and> length (adoptedStyleSheets (adoptStyles sample_runtime (sample_element None []) empty_page)) = 1
   \<and> \<not> has_replaceSync (sample_runtime\<lparr>has_replaceSync := False\<rparr>)
   \<and> adoptStyles (sample_runtime\<lparr>has_replaceSync := False\<rparr>) (sample_element None []) empty_page
       = empty_page"
  using adoptStyles_gated [of sample_runtime "sample_element None []" empty_page]
    adoptStyles_gated [of "sample_runtime\<lparr>has_replaceSync := False\<rparr>"
      "sample_element None []" empty_page]
  by (simp add: sample_runtime_def empty_page_def)

text \<open>
  C9, as the code has it. Every attachment assigns the identifier: after
  \<open>connectedCallback\<close> the field and the attribute \<open>uuid\<close> hold the value
  that \<open>crypto.randomUUID()\<close> returned in this attachment. The setter of the
  display text leaves both as they are.
\<close>

theorem connectedCallback_uuid:
  "uuid (fst (connectedCallback rt (el, pg))) = randomUUID rt (uuid_calls pg)
   \<and> attributes (fst (connectedCallback rt (el, pg))) ''uuid'' = Some (randomUUID rt (uuid_calls pg))
   \<and> uuid_calls (snd (connectedCallback rt (el, pg))) = Suc (uuid_calls pg)
   \<and> uuid (set_glitchText v el) = uuid el
   \<and> attributes (set_glitchText v el) ''uuid'' = attributes el ''uuid''"
  by (simp add: connectedCallback_element connectedCallback_page)

text \<open>
  Attaching the same element a second time replaces the identifier and the attribute.
\<close>

theorem reattachment_changes_uuid:
  "uuid (fst (connectedCallback sample_runtime
           (connectedCallback sample_runtime (sample_element None [], empty_page))))
     \<noteq> uuid (fst (connectedCallback sample_runtime (sample_element None [], empty_page)))
   \<and> attributes (fst (connectedCallback sample_runtime
           (connectedCallback sample_runtime (sample_element None [], empty_page)))) ''uuid''
     \<noteq> attributes (fst (connectedCallback sample_runtime (sample_element None [], empty_page))) ''uuid''"
proof -
  let ?s0 = "(sample_element None [], empty_page)"
  obtain el1 pg1 where s1: "connectedCallback sample_runtime ?s0 = (el1, pg1)"
    by (cases "connectedCallback sample_runtime ?s0")
  have el1: "el1 = fst (connectedCallback sample_runtime ?s0)"
    and pg1: "pg1 = snd (connectedCallback sample_runtime ?s0)"
    using s1 by simp_all
  have c0: "uuid_calls empty_page = 0"
    by (simp add: empty_page_def)
  have c1: "uuid_calls pg1 = 1"
    unfolding pg1 by (simp add: connectedCallback_page c0)
  have u1: "uuid el1 = randomUUID sample_runtime 0"
    and a1: "attributes el1 ''uuid'' = Some (randomUUID sample_runtime 0)"
    unfolding el1 by (simp_all add: connectedCallback_element c0)
  have u2: "uuid (fst (connectedCallback sample_runtime (el1, pg1))) = randomUUID sample_runtime 1"
    and a2: "attributes (fst (connectedCallback sample_runtime (el1, pg1))) ''uuid''
       = Some (randomUUID sample_runtime 1)"
    by (simp_all add: connectedCallback_element c1)
  have "randomUUID sample_runtime 0 \<noteq> randomUUID sample_runtime 1"
    by (simp add: sample_runtime_def)
  then show ?thesis
    by (simp add: s1 u1 a1 u2 a2)
qed

section \<open>The reduced-motion guard\<close>


lemma styles_text:
  "fst (styles rt el k) =
     lit ''\<newline>      @media (prefers-reduced-motion: no-preference) {'' @
     fst (media_body rt el k) @ lit ''}\<newline>    ''"
  by (simp add: styles_def lit_simps split: prod.split)

lemma media_body_closing_brace_uuid:
  assumes "uuid el = lit ''}''"
  shows "brace_depth 0 (fst (media_body rt el k)) = None"
proof -
  obtain fa k1 where fa: "generateNoiseAnimation rt 20 (Dbl 1) (Dbl 100) k = (fa, k1)"
    by (cases "generateNoiseAnimation rt 20 (Dbl 1) (Dbl 100) k")
  obtain fb k2 where fb: "generateNoiseAnimation rt 20 (Dbl 1) (Dbl 100) k1 = (fb, k2)"
    by (cases "generateNoiseAnimation rt 20 (Dbl 1) (Dbl 100) k1")
  have sel: "brace_depth 0 (rule_set (host_selector (lit ''}'')) host_declarations) = None"
    by (simp add: rule_set_def host_selector_def brace_depth_append lit_simps)
  have nl: "brace_depth 0 (lit ''\<newline>'') = Some 0"
    by (simp add: lit_simps)
  show ?thesis
    by (simp add: media_body_def fa fb assms brace_depth_append sel nl)
qed

lemma no_balanced_body_closing_brace_uuid:
  assumes "uuid el = lit ''}''"
  shows "\<not> (\<exists>body. fst (styles rt el k) =
      lit ''\<newline>      @media (prefers-reduced-motion: no-preference) {'' @ body @
      lit ''}\<newline>    '' \<and> balanced body)"
proof
  assume "\<exists>body. fst (styles rt el k) =
      lit ''\<newline>      @media (prefers-reduced-motion: no-preference) {'' @ body @
      lit ''}\<newline>    '' \<and> balanced body"
  then obtain body where b: "fst (styles rt el k) =
      lit ''\<newline>      @media (prefers-reduced-motion: no-preference) {'' @ body @
      lit ''}\<newline>    ''" and bal: "balanced body"
    by blast
  from b have "body = fst (media_body rt el k)"
    by (simp only: styles_text same_append_eq append_same_eq)
  then show False
    using bal media_body_closing_brace_uuid [OF assms, of rt k] by (simp add: balanced_def)
qed





end
